theory Spec2Isabelle
  imports Main "HOL-Library.Word"
begin

unbundle bit_operations_syntax

section \<open>Modbus CRC16: the table-driven routine of benchmark.py\<close>

text \<open>
  Python integers are unbounded, so the accumulator \<open>crc\<close> is an \<open>int\<close>; on \<open>int\<close>,
  \<open>drop_bit\<close> is Python's \<open>>>\<close> and \<open>AND\<close>, \<open>XOR\<close> are Python's \<open>&\<close>, \<open>^\<close>.
  A \<open>bytes\<close> object is a list of 8-bit values; iterating over it yields the integers
  \<open>uint b\<close>. Exceptions are values of a sum type.
\<close>

type_synonym byte = "8 word"

datatype error = IndexError | ValueError

subsection \<open>The embedded lookup table\<close>

definition table :: "int list" where
  "table = [
     0x0000, 0xC0C1, 0xC181, 0x0140, 0xC301, 0x03C0, 0x0280, 0xC241,
     0xC601, 0x06C0, 0x0780, 0xC741, 0x0500, 0xC5C1, 0xC481, 0x0440,
     0xCC01, 0x0CC0, 0x0D80, 0xCD41, 0x0F00, 0xCFC1, 0xCE81, 0x0E40,
     0x0A00, 0xCAC1, 0xCB81, 0x0B40, 0xC901, 0x09C0, 0x0880, 0xC841,
     0xD801, 0x18C0, 0x1980, 0xD941, 0x1B00, 0xDBC1, 0xDA81, 0x1A40,
     0x1E00, 0xDEC1, 0xDF81, 0x1F40, 0xDD01, 0x1DC0, 0x1C80, 0xDC41,
     0x1400, 0xD4C1, 0xD581, 0x1540, 0xD701, 0x17C0, 0x1680, 0xD641,
     0xD201, 0x12C0, 0x1380, 0xD341, 0x1100, 0xD1C1, 0xD081, 0x1040,
     0xF001, 0x30C0, 0x3180, 0xF141, 0x3300, 0xF3C1, 0xF281, 0x3240,
     0x3600, 0xF6C1, 0xF781, 0x3740, 0xF501, 0x35C0, 0x3480, 0xF441,
     0x3C00, 0xFCC1, 0xFD81, 0x3D40, 0xFF01, 0x3FC0, 0x3E80, 0xFE41,
     0xFA01, 0x3AC0, 0x3B80, 0xFB41, 0x3900, 0xF9C1, 0xF881, 0x3840,
     0x2800, 0xE8C1, 0xE981, 0x2940, 0xEB01, 0x2BC0, 0x2A80, 0xEA41,
     0xEE01, 0x2EC0, 0x2F80, 0xEF41, 0x2D00, 0xEDC1, 0xEC81, 0x2C40,
     0xE401, 0x24C0, 0x2580, 0xE541, 0x2700, 0xE7C1, 0xE681, 0x2640,
     0x2200, 0xE2C1, 0xE381, 0x2340, 0xE101, 0x21C0, 0x2080, 0xE041,
     0xA001, 0x60C0, 0x6180, 0xA141, 0x6300, 0xA3C1, 0xA281, 0x6240,
     0x6600, 0xA6C1, 0xA781, 0x6740, 0xA501, 0x65C0, 0x6480, 0xA441,
     0x6C00, 0xACC1, 0xAD81, 0x6D40, 0xAF01, 0x6FC0, 0x6E80, 0xAE41,
     0xAA01, 0x6AC0, 0x6B80, 0xAB41, 0x6900, 0xA9C1, 0xA881, 0x6840,
     0x7800, 0xB8C1, 0xB981, 0x7940, 0xBB01, 0x7BC0, 0x7A80, 0xBA41,
     0xBE01, 0x7EC0, 0x7F80, 0xBF41, 0x7D00, 0xBDC1, 0xBC81, 0x7C40,
     0xB401, 0x74C0, 0x7580, 0xB541, 0x7700, 0xB7C1, 0xB681, 0x7640,
     0x7200, 0xB2C1, 0xB381, 0x7340, 0xB101, 0x71C0, 0x7080, 0xB041,
     0x5000, 0x90C1, 0x9181, 0x5140, 0x9301, 0x53C0, 0x5280, 0x9241,
     0x9601, 0x56C0, 0x5780, 0x9741, 0x5500, 0x95C1, 0x9481, 0x5440,
     0x9C01, 0x5CC0, 0x5D80, 0x9D41, 0x5F00, 0x9FC1, 0x9E81, 0x5E40,
     0x5A00, 0x9AC1, 0x9B81, 0x5B40, 0x9901, 0x59C0, 0x5880, 0x9841,
     0x8801, 0x48C0, 0x4980, 0x8941, 0x4B00, 0x8BC1, 0x8A81, 0x4A40,
     0x4E00, 0x8EC1, 0x8F81, 0x4F40, 0x8D01, 0x4DC0, 0x4C80, 0x8C41,
     0x4400, 0x84C1, 0x8581, 0x4540, 0x8701, 0x47C0, 0x4680, 0x8641,
     0x8201, 0x42C0, 0x4380, 0x8341, 0x4100, 0x81C1, 0x8081, 0x4040
  ]"

text \<open>Subscripting a Python tuple: negative indices count from the end, anything else
  out of range raises IndexError.\<close>

definition tuple_getitem :: "int list \<Rightarrow> int \<Rightarrow> error + int" where
  "tuple_getitem t i =
     (let n = int (length t); j = (if i < 0 then n + i else i)
      in if 0 \<le> j \<and> j < n then Inr (t ! nat j) else Inl IndexError)"

text \<open>The constructor \<open>bytes([...])\<close>: ValueError unless every item is in \<open>range(256)\<close>.\<close>

definition in_byte_range :: "int \<Rightarrow> bool" where
  "in_byte_range v = (0 \<le> v \<and> v < 256)"

definition bytes_of_ints :: "int list \<Rightarrow> error + byte list" where
  "bytes_of_ints vs =
     (if list_all in_byte_range vs then Inr (map word_of_int vs) else Inl ValueError)"

subsection \<open>crc16_pure_python\<close>

text \<open>The loop body \<open>crc = (crc >> 8) ^ table[(crc ^ byte) & 0xFF]\<close>.\<close>

definition crc_update :: "int \<Rightarrow> byte \<Rightarrow> error + int" where
  "crc_update crc b =
     (case tuple_getitem table ((crc XOR uint b) AND 0xFF) of
        Inl e \<Rightarrow> Inl e
      | Inr t \<Rightarrow> Inr (drop_bit 8 crc XOR t))"

text \<open>The loop \<open>for byte in data\<close>, started from an accumulator value.\<close>

fun crc_loop :: "int \<Rightarrow> byte list \<Rightarrow> error + int" where
  "crc_loop crc [] = Inr crc"
| "crc_loop crc (b # rest) =
     (case crc_update crc b of Inl e \<Rightarrow> Inl e | Inr crc' \<Rightarrow> crc_loop crc' rest)"

definition crc16_pure_python :: "byte list \<Rightarrow> error + byte list" where
  "crc16_pure_python data =
     (case crc_loop 0xFFFF data of
        Inl e \<Rightarrow> Inl e
      | Inr crc \<Rightarrow> bytes_of_ints [crc AND 0xFF, drop_bit 8 crc])"

subsection \<open>The bitwise reference strategy, as the specification words it\<close>

text \<open>One of the 8 iterations: if the low bit of the accumulator is 1,
  \<open>accumulator = (accumulator >> 1) XOR 0xA001\<close>, else \<open>accumulator = accumulator >> 1\<close>.\<close>

definition spec_bitwise_shift :: "int \<Rightarrow> int" where
  "spec_bitwise_shift acc =
     (if acc AND 1 = 1 then drop_bit 1 acc XOR 0xA001 else drop_bit 1 acc)"

text \<open>One input byte: \<open>accumulator ^= b\<close>, then the iteration 8 times.\<close>

definition spec_bitwise_byte :: "int \<Rightarrow> byte \<Rightarrow> int" where
  "spec_bitwise_byte acc b = (spec_bitwise_shift ^^ 8) (acc XOR uint b)"

text \<open>All bytes in sequence order, from a given seed.\<close>

definition spec_bitwise_from :: "int \<Rightarrow> byte list \<Rightarrow> int" where
  "spec_bitwise_from seed data = foldl spec_bitwise_byte seed data"

text \<open>Output encoding: low byte \<open>accumulator & 0xFF\<close>, high byte \<open>accumulator >> 8\<close>,
  in that order.\<close>

definition spec_encode :: "int \<Rightarrow> byte list" where
  "spec_encode acc = [word_of_int (acc AND 0xFF), word_of_int (drop_bit 8 acc)]"

text \<open>BitwiseStrategy: the accumulator is seeded with 0xFFFF.\<close>

definition spec_bitwise_strategy :: "byte list \<Rightarrow> byte list" where
  "spec_bitwise_strategy data = spec_encode (spec_bitwise_from 0xFFFF data)"

subsection \<open>The table-driven strategy, as the specification words it\<close>

text \<open>\<open>index = (accumulator XOR b) & 0xFF\<close>;
  \<open>accumulator = (accumulator >> 8) XOR table[index]\<close>.\<close>

definition spec_table_step :: "int \<Rightarrow> byte \<Rightarrow> int" where
  "spec_table_step acc b =
     (let index = (acc XOR uint b) AND 0xFF in drop_bit 8 acc XOR table ! nat index)"

definition spec_table_acc :: "byte list \<Rightarrow> int" where
  "spec_table_acc data = foldl spec_table_step 0xFFFF data"

subsection \<open>The 16-bit range of the accumulator\<close>

definition in16 :: "int \<Rightarrow> bool" where
  "in16 x = (0 \<le> x \<and> x < 65536)"

section \<open>Auxiliary facts\<close>

subsection \<open>The shift step is linear over XOR\<close>

lemma low_bit_iff: "(x AND 1 = 1) = odd (x::int)"
  by (simp add: and_one_eq odd_iff_mod_2_eq_one)

lemma shift_xor: "spec_bitwise_shift (x XOR y) = spec_bitwise_shift x XOR spec_bitwise_shift y"
  by (simp add: spec_bitwise_shift_def low_bit_iff even_xor_iff xor.assoc xor.commute xor.left_commute)

lemma split8: "(x::int) = take_bit 8 x XOR push_bit 8 (drop_bit 8 x)"
  by (rule bit_eqI) (auto simp add: bit_simps)

lemma shift_even: "even x \<Longrightarrow> spec_bitwise_shift x = drop_bit 1 x"
  by (simp add: spec_bitwise_shift_def low_bit_iff)

lemma shift_push: "spec_bitwise_shift (push_bit (Suc k) h) = push_bit k h"
proof -
  have "even (push_bit (Suc k) h)" by (simp add: even_push_bit_iff)
  then have "spec_bitwise_shift (push_bit (Suc k) h) = drop_bit 1 (push_bit (Suc k) h)"
    by (rule shift_even)
  also have "\<dots> = push_bit k h"
    by (simp add: drop_bit_eq_div push_bit_eq_mult)
  finally show ?thesis .
qed

lemma funpow_shift_xor:
  "(spec_bitwise_shift ^^ n) (x XOR y) = (spec_bitwise_shift ^^ n) x XOR (spec_bitwise_shift ^^ n) y"
proof (induction n arbitrary: x y)
  case 0
  show ?case by simp
next
  case (Suc n)
  have "(spec_bitwise_shift ^^ Suc n) (x XOR y)
      = (spec_bitwise_shift ^^ n) (spec_bitwise_shift x XOR spec_bitwise_shift y)"
    by (simp only: funpow_Suc_right o_apply shift_xor)
  also have "\<dots> = (spec_bitwise_shift ^^ n) (spec_bitwise_shift x)
                 XOR (spec_bitwise_shift ^^ n) (spec_bitwise_shift y)"
    by (rule Suc.IH)
  finally show ?case by (simp only: funpow_Suc_right o_apply)
qed

lemma funpow_shift_push: "(spec_bitwise_shift ^^ n) (push_bit n h) = h"
proof (induction n)
  case 0
  show ?case by simp
next
  case (Suc n)
  have "(spec_bitwise_shift ^^ Suc n) (push_bit (Suc n) h)
      = (spec_bitwise_shift ^^ n) (spec_bitwise_shift (push_bit (Suc n) h))"
    by (simp only: funpow_Suc_right o_apply)
  also have "\<dots> = (spec_bitwise_shift ^^ n) (push_bit n h)"
    by (simp only: shift_push)
  also have "\<dots> = h" by (rule Suc.IH)
  finally show ?case .
qed

lemma reduce8_split:
  "(spec_bitwise_shift ^^ 8) x = drop_bit 8 x XOR (spec_bitwise_shift ^^ 8) (take_bit 8 x)"
proof -
  have "(spec_bitwise_shift ^^ 8) x
      = (spec_bitwise_shift ^^ 8) (take_bit 8 x XOR push_bit 8 (drop_bit 8 x))"
    by (rule arg_cong [where f = "spec_bitwise_shift ^^ 8"]) (rule split8)
  also have "\<dots> = (spec_bitwise_shift ^^ 8) (take_bit 8 x) XOR drop_bit 8 x"
    by (simp only: funpow_shift_xor funpow_shift_push)
  finally show ?thesis by (simp only: xor.commute)
qed


lemma table_length: "length table = 256"
  by (simp add: table_def)

lemma table_reduce_map: "map (spec_bitwise_shift ^^ 8) [0..255] = table"
  by code_simp

lemma table_entry_int:
  assumes "0 \<le> j" and "j < 256"
  shows "table ! nat j = (spec_bitwise_shift ^^ 8) j"
proof -
  have len: "nat j < length [0..255]"
    using assms by (simp only: length_upto)
  have "[0..255] ! nat j = 0 + int (nat j)"
    using assms by (intro nth_upto) simp
  then have at: "[0..255] ! nat j = j"
    using assms by simp
  have "table ! nat j = map (spec_bitwise_shift ^^ 8) [0..255] ! nat j"
    by (simp only: table_reduce_map)
  also have "\<dots> = (spec_bitwise_shift ^^ 8) ([0..255] ! nat j)"
    using len by (rule nth_map)
  finally show ?thesis by (simp only: at)
qed

lemma table_all_in16: "list_all in16 table"
  by (simp add: table_def in16_def)

lemma table_entry_in16:
  assumes "0 \<le> j" and "j < 256"
  shows "in16 (table ! nat j)"
proof -
  have "nat j < length table" using assms by (simp add: table_length)
  then show ?thesis using table_all_in16 by (simp only: list_all_length)
qed

lemma tuple_getitem_table:
  assumes "0 \<le> j" and "j < 256"
  shows "tuple_getitem table j = Inr (table ! nat j)"
  using assms by (simp add: tuple_getitem_def table_length)

lemma take_bit8_range: "0 \<le> take_bit 8 (x::int) \<and> take_bit 8 x < 256"
  using take_bit_int_less_exp [of 8 x] by simp

lemma and_255: "(x::int) AND 0xFF = take_bit 8 x"
  by (simp add: take_bit_eq_mask mask_eq_exp_minus_1)

lemma crc_update_table_step: "crc_update crc b = Inr (spec_table_step crc b)"
proof -
  let ?j = "(crc XOR uint b) AND 0xFF"
  have "0 \<le> ?j" and "?j < 256"
    using take_bit8_range [of "crc XOR uint b"] by (simp_all only: and_255)
  then have "tuple_getitem table ?j = Inr (table ! nat ?j)"
    by (rule tuple_getitem_table)
  then show ?thesis
    by (simp add: crc_update_def spec_table_step_def)
qed

lemma crc_loop_table_fold: "crc_loop crc data = Inr (foldl spec_table_step crc data)"
  by (induction data arbitrary: crc) (simp_all add: crc_update_table_step)

lemma in16_high_byte: "in16 x \<Longrightarrow> 0 \<le> drop_bit 8 x \<and> drop_bit 8 x < 256"
proof -
  assume "in16 x"
  then have "0 \<le> x" and "x < 256 * 256" by (simp_all add: in16_def)
  then have "0 \<le> x div 256" and "x div 256 < 256" by arith+
  then show ?thesis by (simp add: drop_bit_eq_div)
qed

lemma in16_xor: "in16 x \<Longrightarrow> in16 y \<Longrightarrow> in16 (x XOR y)"
  using XOR_upper [of x 16 y] by (simp add: in16_def)

lemma in16_table_step:
  assumes "in16 crc"
  shows "in16 (spec_table_step crc b)"
proof -
  let ?j = "(crc XOR uint b) AND 0xFF"
  have "0 \<le> ?j" and "?j < 256"
    using take_bit8_range [of "crc XOR uint b"] by (simp_all only: and_255)
  then have t: "in16 (table ! nat ?j)"
    by (rule table_entry_in16)
  have "in16 (drop_bit 8 crc)"
    using in16_high_byte [OF assms] by (simp add: in16_def)
  then show ?thesis
    using t by (simp add: spec_table_step_def in16_xor)
qed

lemma in16_foldl: "in16 crc \<Longrightarrow> in16 (foldl spec_table_step crc data)"
  by (induction data arbitrary: crc) (simp_all add: in16_table_step)

lemma bytes_of_ints_encode:
  assumes "in16 crc"
  shows "bytes_of_ints [crc AND 0xFF, drop_bit 8 crc] = Inr (spec_encode crc)"
proof -
  have "in_byte_range (crc AND 0xFF)"
    using take_bit8_range [of crc] by (simp only: and_255 in_byte_range_def)
  moreover have "in_byte_range (drop_bit 8 crc)"
    using in16_high_byte [OF assms] by (simp only: in_byte_range_def)
  ultimately show ?thesis
    by (simp add: bytes_of_ints_def spec_encode_def)
qed

lemma crc16_table_encode:
  "crc16_pure_python data = Inr (spec_encode (spec_table_acc data))"
proof -
  have "in16 (spec_table_acc data)"
    unfolding spec_table_acc_def by (rule in16_foldl) (simp add: in16_def)
  then show ?thesis
    by (simp add: crc16_pure_python_def crc_loop_table_fold spec_table_acc_def
        bytes_of_ints_encode)
qed

lemma drop_bit8_uint: "drop_bit 8 (uint (b::byte)) = 0"
proof -
  have "0 \<le> uint b" and "uint b < 256"
    using uint_bounded [of b] by simp_all
  then show ?thesis by (simp add: drop_bit_eq_div)
qed

lemma table_step_bitwise: "spec_table_step crc b = spec_bitwise_byte crc b"
proof -
  let ?x = "crc XOR uint b"
  have r: "0 \<le> take_bit 8 ?x" "take_bit 8 ?x < 256"
    using take_bit8_range [of ?x] by simp_all
  have "spec_bitwise_byte crc b = drop_bit 8 ?x XOR (spec_bitwise_shift ^^ 8) (take_bit 8 ?x)"
    unfolding spec_bitwise_byte_def by (rule reduce8_split)
  also have "drop_bit 8 ?x = drop_bit 8 crc"
    by (simp add: drop_bit_xor drop_bit8_uint)
  also have "(spec_bitwise_shift ^^ 8) (take_bit 8 ?x) = table ! nat (take_bit 8 ?x)"
    using r by (rule table_entry_int [symmetric])
  finally show ?thesis
    by (simp only: spec_table_step_def Let_def and_255)
qed

lemma table_acc_bitwise: "foldl spec_table_step crc data = spec_bitwise_from crc data"
  unfolding spec_bitwise_from_def
  by (induction data arbitrary: crc) (simp_all add: table_step_bitwise)

lemma uint_byte_of_nat: "i < 256 \<Longrightarrow> uint (of_nat i :: byte) = int i"
  by (simp add: uint_nat unat_of_nat)

lemma uint_byte_of_int: "in_byte_range v \<Longrightarrow> uint (word_of_int v :: byte) = v"
  by (simp add: in_byte_range_def uint_word_of_int_eq take_bit_int_eq_self)

lemma low_byte_range: "in_byte_range (x AND 0xFF)"
  using take_bit8_range [of x] by (simp only: and_255 in_byte_range_def)

lemma high_byte_range: "in16 x \<Longrightarrow> in_byte_range (drop_bit 8 x)"
  using in16_high_byte [of x] by (simp only: in_byte_range_def)

lemma in16_table_acc: "in16 (spec_table_acc data)"
  unfolding spec_table_acc_def by (rule in16_foldl) (simp add: in16_def)

section \<open>The claims\<close>

text \<open>
  C1. For every byte sequence, of any length, the table-driven \<open>crc16_pure_python\<close>
  agrees with the bitwise reference strategy (seed 0xFFFF; per byte an XOR into the
  accumulator and 8 conditional shifts with 0xA001): the accumulators are equal, and so
  are the two emitted bytes.
\<close>

theorem table_strategy_equals_bitwise:
  "crc_loop 0xFFFF data = Inr (spec_bitwise_from 0xFFFF data)
   \<and> crc16_pure_python data = Inr (spec_bitwise_strategy data)"
proof
  show "crc_loop 0xFFFF data = Inr (spec_bitwise_from 0xFFFF data)"
    by (simp only: crc_loop_table_fold table_acc_bitwise)
  have "spec_table_acc data = spec_bitwise_from 0xFFFF data"
    by (simp only: spec_table_acc_def table_acc_bitwise)
  then show "crc16_pure_python data = Inr (spec_bitwise_strategy data)"
    by (simp only: crc16_table_encode spec_bitwise_strategy_def)
qed

text \<open>
  C2. \<open>crc16_pure_python\<close> is the specified table-driven algorithm: the accumulator
  starts at 0xFFFF, each byte \<open>b\<close> turns it into
  \<open>(accumulator >> 8) XOR table[(accumulator XOR b) & 0xFF]\<close>, in sequence order, and
  the value left after the last byte is the CRC that is encoded.
\<close>

theorem crc16_is_table_algorithm:
  "crc_loop 0xFFFF [] = Inr 0xFFFF
   \<and> crc_update acc b = Inr (drop_bit 8 acc XOR table ! nat ((acc XOR uint b) AND 0xFF))
   \<and> crc_loop 0xFFFF data = Inr (spec_table_acc data)
   \<and> crc16_pure_python data = Inr (spec_encode (spec_table_acc data))"
proof (intro conjI)
  show "crc_loop 0xFFFF [] = Inr 0xFFFF" by simp
  show "crc_update acc b = Inr (drop_bit 8 acc XOR table ! nat ((acc XOR uint b) AND 0xFF))"
    by (simp only: crc_update_table_step spec_table_step_def Let_def)
  show "crc_loop 0xFFFF data = Inr (spec_table_acc data)"
    by (simp only: crc_loop_table_fold spec_table_acc_def)
  show "crc16_pure_python data = Inr (spec_encode (spec_table_acc data))"
    by (rule crc16_table_encode)
qed

text \<open>
  C3. The table has 256 entries, and entry \<open>i\<close> is what the bitwise reference computes
  for the one-byte buffer holding \<open>i\<close> when the accumulator is seeded with 0.
\<close>

theorem table_entries_from_bitwise:
  assumes "i < 256"
  shows "length table = 256 \<and> table ! i = spec_bitwise_from 0 [of_nat i]"
proof
  show "length table = 256" by (rule table_length)
  have "0 \<le> int i" and "int i < 256" using assms by simp_all
  then have "table ! nat (int i) = (spec_bitwise_shift ^^ 8) (int i)"
    by (rule table_entry_int)
  moreover have "spec_bitwise_from 0 [of_nat i] = (spec_bitwise_shift ^^ 8) (int i)"
    using assms by (simp add: spec_bitwise_from_def spec_bitwise_byte_def uint_byte_of_nat)
  ultimately show "table ! i = spec_bitwise_from 0 [of_nat i]" by simp
qed

theorem table_entries_from_bitwise_witness:
  "(1::nat) < 256 \<and> length table = 256 \<and> table ! 1 = spec_bitwise_from 0 [1]"
  using table_entries_from_bitwise [of 1] by simp

text \<open>
  C4. For the read-holding-registers request 01 03 00 00 00 06 the routine returns the
  bytes C5 C8, the Modbus checksum of that frame, which is also what the bitwise
  reference yields, low byte first.
\<close>

theorem crc16_known_vector:
  "crc16_pure_python [0x01, 0x03, 0x00, 0x00, 0x00, 0x06] = Inr [0xC5, 0xC8]
   \<and> spec_bitwise_strategy [0x01, 0x03, 0x00, 0x00, 0x00, 0x06] = [0xC5, 0xC8]"
proof -
  have v: "crc16_pure_python [0x01, 0x03, 0x00, 0x00, 0x00, 0x06] = Inr [0xC5, 0xC8]"
    by code_simp
  have "crc16_pure_python [0x01, 0x03, 0x00, 0x00, 0x00, 0x06]
      = Inr (spec_bitwise_strategy [0x01, 0x03, 0x00, 0x00, 0x00, 0x06])"
    by (simp only: crc16_table_encode spec_bitwise_strategy_def spec_table_acc_def
        table_acc_bitwise)
  with v show ?thesis by simp
qed

text \<open>
  C5. On the empty byte sequence the routine returns the seed 0xFFFF, low byte first:
  the two bytes FF FF.
\<close>

theorem crc16_empty_input: "crc16_pure_python [] = Inr [0xFF, 0xFF]"
  by (simp add: crc16_pure_python_def bytes_of_ints_def in_byte_range_def)

text \<open>
  C6. For every input the result is exactly two bytes: the first is the final
  accumulator \<open>& 0xFF\<close>, the second the final accumulator \<open>>> 8\<close>.
\<close>

theorem crc16_output_encoding:
  "\<exists>acc lo hi. crc_loop 0xFFFF data = Inr acc
     \<and> crc16_pure_python data = Inr [lo, hi]
     \<and> uint lo = acc AND 0xFF \<and> uint hi = drop_bit 8 acc"
proof -
  let ?acc = "spec_table_acc data"
  let ?lo = "word_of_int (?acc AND 0xFF) :: byte"
  let ?hi = "word_of_int (drop_bit 8 ?acc) :: byte"
  have "crc_loop 0xFFFF data = Inr ?acc"
    by (simp only: crc_loop_table_fold spec_table_acc_def)
  moreover have "crc16_pure_python data = Inr [?lo, ?hi]"
    by (simp only: crc16_table_encode spec_encode_def)
  moreover have "uint ?lo = ?acc AND 0xFF"
    by (rule uint_byte_of_int) (rule low_byte_range)
  moreover have "uint ?hi = drop_bit 8 ?acc"
    by (rule uint_byte_of_int) (rule high_byte_range, rule in16_table_acc)
  ultimately show ?thesis by blast
qed

text \<open>
  C7. The computation is total: every table subscript of the loop is in range, the two
  values handed to \<open>bytes\<close> are in 0..255, and the routine returns a result, never an
  error, for every byte sequence.
\<close>

theorem crc16_total:
  "(\<exists>t. tuple_getitem table ((crc XOR uint b) AND 0xFF) = Inr t)
   \<and> (\<exists>acc. crc_loop 0xFFFF data = Inr acc
          \<and> in_byte_range (acc AND 0xFF) \<and> in_byte_range (drop_bit 8 acc))
   \<and> (\<exists>out. crc16_pure_python data = Inr out)"
proof (intro conjI)
  have "0 \<le> (crc XOR uint b) AND 0xFF" and "(crc XOR uint b) AND 0xFF < 256"
    using take_bit8_range [of "crc XOR uint b"] by (simp_all only: and_255)
  then have "tuple_getitem table ((crc XOR uint b) AND 0xFF)
      = Inr (table ! nat ((crc XOR uint b) AND 0xFF))"
    by (rule tuple_getitem_table)
  then show "\<exists>t. tuple_getitem table ((crc XOR uint b) AND 0xFF) = Inr t" ..
  have "crc_loop 0xFFFF data = Inr (spec_table_acc data)"
    by (simp only: crc_loop_table_fold spec_table_acc_def)
  moreover have "in_byte_range (spec_table_acc data AND 0xFF)"
    by (rule low_byte_range)
  moreover have "in_byte_range (drop_bit 8 (spec_table_acc data))"
    by (rule high_byte_range) (rule in16_table_acc)
  ultimately show "\<exists>acc. crc_loop 0xFFFF data = Inr acc
      \<and> in_byte_range (acc AND 0xFF) \<and> in_byte_range (drop_bit 8 acc)"
    by blast
  show "\<exists>out. crc16_pure_python data = Inr out"
    using crc16_table_encode [of data] ..
qed

text \<open>
  C9. The update is incremental: the accumulator after \<open>data\<close> followed by \<open>b\<close> is the
  one-byte update with \<open>b\<close> applied to the accumulator left after \<open>data\<close>.
\<close>

theorem crc_state_incremental:
  "\<exists>s. crc_loop 0xFFFF data = Inr s \<and> crc_loop 0xFFFF (data @ [b]) = crc_update s b"
proof -
  have "crc_loop 0xFFFF data = Inr (foldl spec_table_step 0xFFFF data)"
    by (rule crc_loop_table_fold)
  moreover have "crc_loop 0xFFFF (data @ [b])
      = crc_update (foldl spec_table_step 0xFFFF data) b"
    by (simp add: crc_loop_table_fold crc_update_table_step)
  ultimately show ?thesis by blast
qed

text \<open>
  C10. The accumulator stays in 0..0xFFFF: the seed is in range, every table entry is
  below 2^16, one update step keeps an accumulator in range, hence the accumulator after
  any byte sequence is in range and its high byte \<open>accumulator >> 8\<close> is in 0..255.
\<close>

theorem accumulator_stays_16_bit:
  "in16 0xFFFF
   \<and> list_all in16 table
   \<and> (in16 crc \<longrightarrow> (\<exists>crc'. crc_update crc b = Inr crc' \<and> in16 crc'))
   \<and> (\<exists>acc. crc_loop 0xFFFF data = Inr acc \<and> in16 acc
          \<and> 0 \<le> drop_bit 8 acc \<and> drop_bit 8 acc \<le> 255)"
proof (intro conjI impI)
  show "in16 0xFFFF" by (simp add: in16_def)
  show "list_all in16 table" by (rule table_all_in16)
  show "\<exists>crc'. crc_update crc b = Inr crc' \<and> in16 crc'" if "in16 crc"
    using in16_table_step [OF that, of b] crc_update_table_step [of crc b] by blast
  have "crc_loop 0xFFFF data = Inr (spec_table_acc data)"
    by (simp only: crc_loop_table_fold spec_table_acc_def)
  moreover have "in16 (spec_table_acc data)"
    by (rule in16_table_acc)
  moreover have "0 \<le> drop_bit 8 (spec_table_acc data)"
    and "drop_bit 8 (spec_table_acc data) \<le> 255"
    using in16_high_byte [OF in16_table_acc, of data] by simp_all
  ultimately show "\<exists>acc. crc_loop 0xFFFF data = Inr acc \<and> in16 acc
      \<and> 0 \<le> drop_bit 8 acc \<and> drop_bit 8 acc \<le> 255"
    by blast
qed

theorem accumulator_stays_16_bit_witness:
  "in16 0xFFFF \<and> (\<exists>crc'. crc_update 0xFFFF 0x01 = Inr crc' \<and> in16 crc')"
  using accumulator_stays_16_bit [of "0xFFFF" "0x01" "[]"] by blast

end
